theory Spec2Isabelle
  imports Complex_Main
begin

section \<open>The streaming gesture recogniser of LIA-WEB\<close>

text \<open>
  A shallow embedding of \<^verbatim>\<open>lia-web/scripts/reconhecer_gestos.py\<close>: the class
  \<^verbatim>\<open>GestureRecognizer\<close> (its window buffer, presence counter, confidence gate,
  majority vote and emission rule) and the per-frame loop of \<^verbatim>\<open>main\<close>.

  The hand detector and the classifier are external. A frame enters the model as the
  detector's output (a list of hands, empty when no hand was seen); the classifier is a
  field of the recogniser, a function from the window to a probability vector that may
  also raise. Probabilities are real numbers here (no NaN, no rounding). Drawing, printing
  and the camera are left out.
\<close>

subsection \<open>Constants of the pipeline\<close>

definition SEQUENCE_LENGTH :: nat where
  "SEQUENCE_LENGTH = 30"

definition MIN_CONFIDENCE :: real where
  "MIN_CONFIDENCE = 7 / 10"

definition RESET_THRESHOLD :: nat where
  "RESET_THRESHOLD = 10"

definition HISTORY_SIZE :: nat where
  "HISTORY_SIZE = 15"

subsection \<open>Data\<close>

type_synonym landmark = "real \<times> real \<times> real"

type_synonym hand = "landmark list"

type_synonym sample = "real list"

text \<open>The exceptions the recognition path can raise.\<close>

datatype error =
    ModelError
  | ValueError
  | IndexError

type_synonym classifier = "sample list \<Rightarrow> error + real list"

text \<open>
  The fields of \<^verbatim>\<open>GestureRecognizer\<close> that the pipeline reads or writes. The two
  deques are lists, oldest element first.
\<close>

record recognizer =
  min_confidence :: real
  model :: classifier
  classes :: "string list"
  buffer :: "sample list"
  prediction_history :: "string list"
  frames_sem_maos :: nat
  ultimo_gesto :: "string option"
  ultima_confianca :: real

text \<open>The state \<^verbatim>\<open>__init__\<close> leaves behind, for a loaded model and label list.\<close>

definition init :: "classifier \<Rightarrow> string list \<Rightarrow> real \<Rightarrow> recognizer" where
  "init m cs conf =
     \<lparr>min_confidence = conf, model = m, classes = cs,
      buffer = [], prediction_history = [],
      frames_sem_maos = 0, ultimo_gesto = None, ultima_confianca = 0\<rparr>"

subsection \<open>\<^verbatim>\<open>collections.deque(maxlen=n)\<close>\<close>

text \<open>
  \<^verbatim>\<open>deque.append\<close> adds on the right and, when the length then exceeds
  \<^verbatim>\<open>maxlen\<close>, drops one element on the left.
\<close>

definition deque_append :: "nat \<Rightarrow> 'a list \<Rightarrow> 'a \<Rightarrow> 'a list" where
  "deque_append maxlen d x =
     (let d' = d @ [x] in if length d' > maxlen then tl d' else d')"

subsection \<open>\<^verbatim>\<open>processar_landmarks\<close>\<close>

definition processar_landmarks :: "hand list \<Rightarrow> sample" where
  "processar_landmarks hands =
     (let landmarks = concat hands;
          landmarks = take 42 landmarks;
          landmarks = landmarks @ replicate (42 - length landmarks) (0, 0, 0)
      in concat (map (\<lambda>(x, y, z). [x, y, z]) landmarks))"

subsection \<open>\<^verbatim>\<open>numpy\<close> operations used by \<^verbatim>\<open>reconhecer\<close>\<close>

text \<open>
  \<^verbatim>\<open>np.array(self.buffer).reshape(1, SEQUENCE_LENGTH, 126)\<close>: the buffer is a deque
  of at most \<^verbatim>\<open>SEQUENCE_LENGTH\<close> samples and the guard before has excluded a shorter
  one, so the reshape goes through exactly when every sample has 126 values; it raises
  \<^verbatim>\<open>ValueError\<close> otherwise.
\<close>

definition reshape_entrada :: "sample list \<Rightarrow> error + sample list" where
  "reshape_entrada b =
     (if length b = SEQUENCE_LENGTH \<and> list_all (\<lambda>s. length s = 126) b
      then Inr b else Inl ValueError)"

text \<open>
  \<^verbatim>\<open>np.argmax\<close>: the index of the first occurrence of the maximum;
  \<^verbatim>\<open>ValueError\<close> on an empty vector.
\<close>

fun argmax_from :: "real list \<Rightarrow> nat \<Rightarrow> nat \<Rightarrow> real \<Rightarrow> nat" where
  "argmax_from [] i best v = best"
| "argmax_from (x # xs) i best v =
     (if v < x then argmax_from xs (Suc i) i x else argmax_from xs (Suc i) best v)"

definition argmax :: "real list \<Rightarrow> error + nat" where
  "argmax ps = (case ps of [] \<Rightarrow> Inl ValueError | p # rest \<Rightarrow> Inr (argmax_from rest 1 0 p))"

subsection \<open>Majority vote\<close>

text \<open>
  \<^verbatim>\<open>contagem = defaultdict(int)\<close> followed by \<^verbatim>\<open>contagem[g] += 1\<close> for every
  entry of the history. A Python dict iterates in insertion order, so the counts are an
  association list: a known key is updated in place, a new key goes to the end.
\<close>

fun incrementar :: "(string \<times> nat) list \<Rightarrow> string \<Rightarrow> (string \<times> nat) list" where
  "incrementar [] g = [(g, 1)]"
| "incrementar ((k, n) # kvs) g =
     (if k = g then (k, n + 1) # kvs else (k, n) # incrementar kvs g)"

definition contagem :: "string list \<Rightarrow> (string \<times> nat) list" where
  "contagem h = foldl incrementar [] h"

text \<open>
  \<^verbatim>\<open>max(contagem.items(), key=lambda x: x[1])\<close>: Python's \<^verbatim>\<open>max\<close> keeps the first
  item and replaces it only by a strictly larger one; it raises \<^verbatim>\<open>ValueError\<close> on an
  empty iterable.
\<close>

fun max_from :: "string \<times> nat \<Rightarrow> (string \<times> nat) list \<Rightarrow> string \<times> nat" where
  "max_from best [] = best"
| "max_from best (kv # kvs) =
     (if snd best < snd kv then max_from kv kvs else max_from best kvs)"

definition max_items :: "(string \<times> nat) list \<Rightarrow> error + string \<times> nat" where
  "max_items items = (case items of [] \<Rightarrow> Inl ValueError | kv # kvs \<Rightarrow> Inr (max_from kv kvs))"

definition votacao :: "string list \<Rightarrow> error + string" where
  "votacao h = (case max_items (contagem h) of Inl e \<Rightarrow> Inl e | Inr kv \<Rightarrow> Inr (fst kv))"

subsection \<open>\<^verbatim>\<open>GestureRecognizer.reconhecer\<close>\<close>

text \<open>
  The method returns \<^verbatim>\<open>(gesto, confianca)\<close> or raises; either way the object keeps
  what was written to it before, so the model returns the recogniser as well.
\<close>

definition inferencia :: "recognizer \<Rightarrow> sample list \<Rightarrow> error + nat \<times> real" where
  "inferencia r entrada =
     (case model r entrada of
        Inl e \<Rightarrow> Inl e
      | Inr predicoes \<Rightarrow>
          (case argmax predicoes of
             Inl e \<Rightarrow> Inl e
           | Inr classe_idx \<Rightarrow> Inr (classe_idx, predicoes ! classe_idx)))"

definition history_append :: "recognizer \<Rightarrow> string \<Rightarrow> recognizer" where
  "history_append r gesto =
     r\<lparr>prediction_history := deque_append HISTORY_SIZE (prediction_history r) gesto\<rparr>"

definition reconhecer :: "recognizer \<Rightarrow> recognizer \<times> (error + string option \<times> real)" where
  "reconhecer r =
     (if length (buffer r) < SEQUENCE_LENGTH then (r, Inr (None, 0))
      else case reshape_entrada (buffer r) of
        Inl e \<Rightarrow> (r, Inl e)
      | Inr entrada \<Rightarrow>
          (case inferencia r entrada of
            Inl e \<Rightarrow> (r, Inl e)
          | Inr (classe_idx, confianca) \<Rightarrow>
              if confianca < min_confidence r then (r, Inr (None, confianca))
              else if length (classes r) \<le> classe_idx then (r, Inl IndexError)
              else
                (let gesto = classes r ! classe_idx;
                     r' = history_append r gesto
                 in case votacao (prediction_history r') of
                      Inl e \<Rightarrow> (r', Inl e)
                    | Inr gesto_final \<Rightarrow> (r', Inr (Some gesto_final, confianca)))))"

subsection \<open>\<^verbatim>\<open>GestureRecognizer.processar_frame\<close>\<close>

text \<open>Python's truth value of \<^verbatim>\<open>gesto\<close>: false for \<^verbatim>\<open>None\<close> and for the empty string.\<close>

definition truthy :: "string option \<Rightarrow> bool" where
  "truthy g = (case g of None \<Rightarrow> False | Some s \<Rightarrow> s \<noteq> [])"

text \<open>
  What \<^verbatim>\<open>processar_frame\<close> returns besides the annotated frame:
  \<^verbatim>\<open>(self.ultimo_gesto, self.ultima_confianca, novo_reconhecimento)\<close>.
\<close>

type_synonym frame_result = "string option \<times> real \<times> bool"

definition retorno :: "recognizer \<Rightarrow> bool \<Rightarrow> frame_result" where
  "retorno r novo = (ultimo_gesto r, ultima_confianca r, novo)"


definition buffer_append :: "recognizer \<Rightarrow> sample \<Rightarrow> recognizer" where
  "buffer_append r landmarks =
     r\<lparr>buffer := deque_append SEQUENCE_LENGTH (buffer r) landmarks\<rparr>"

definition processar_frame :: "recognizer \<Rightarrow> hand list \<Rightarrow> recognizer \<times> (error + frame_result)" where
  "processar_frame r multi_hand_landmarks =
     (if multi_hand_landmarks = [] then
        (let r1 = r\<lparr>frames_sem_maos := frames_sem_maos r + 1\<rparr>;
             r2 = (if RESET_THRESHOLD < frames_sem_maos r1 \<and> 0 < length (buffer r1)
                   then r1\<lparr>buffer := [], prediction_history := []\<rparr> else r1)
         in (r2, Inr (retorno r2 False)))
      else
        (let r1 = r\<lparr>frames_sem_maos := 0\<rparr>;
             landmarks = processar_landmarks multi_hand_landmarks;
             r2 = buffer_append r1 landmarks
         in if length (buffer r2) = SEQUENCE_LENGTH then
              (case reconhecer r2 of
                (r3, Inl e) \<Rightarrow> (r3, Inl e)
              | (r3, Inr (gesto, confianca)) \<Rightarrow>
                  if truthy gesto \<and> gesto \<noteq> ultimo_gesto r3 then
                    (let r4 = r3\<lparr>ultimo_gesto := gesto, ultima_confianca := confianca,
                                  buffer := []\<rparr>
                     in (r4, Inr (retorno r4 True)))
                  else (r3, Inr (retorno r3 False)))
            else (r2, Inr (retorno r2 False))))"

subsection \<open>\<^verbatim>\<open>GestureRecognizer.reset\<close>\<close>

definition reset :: "recognizer \<Rightarrow> recognizer" where
  "reset r = r\<lparr>buffer := [], prediction_history := [], frames_sem_maos := 0,
               ultimo_gesto := None, ultima_confianca := 0\<rparr>"

subsection \<open>The per-frame loop of \<^verbatim>\<open>main\<close>\<close>

text \<open>
  The loop calls \<^verbatim>\<open>processar_frame\<close> once per captured frame. Only
  \<^verbatim>\<open>KeyboardInterrupt\<close> is caught around it, so any exception of the recognition
  path ends the loop. The model runs the loop over the frames of a session and returns
  the recogniser, the results of the frames that completed, and the exception that
  ended the loop, if any.
\<close>

fun loop_principal ::
  "recognizer \<Rightarrow> hand list list \<Rightarrow> recognizer \<times> frame_result list \<times> error option" where
  "loop_principal r [] = (r, [], None)"
| "loop_principal r (f # fs) =
     (case processar_frame r f of
        (r', Inl e) \<Rightarrow> (r', [], Some e)
      | (r', Inr res) \<Rightarrow>
          (case loop_principal r' fs of (r'', ress, e) \<Rightarrow> (r'', res # ress, e)))"

text \<open>The recognitions the loop announces: the results flagged as new.\<close>

definition reconhecidos :: "frame_result list \<Rightarrow> (string option \<times> real) list" where
  "reconhecidos ress = map (\<lambda>(g, c, novo). (g, c)) (filter (\<lambda>(g, c, novo). novo) ress)"

subsection \<open>Operations on a recogniser\<close>

text \<open>
  The ways the code changes a recogniser: a call of \<^verbatim>\<open>processar_frame\<close> (the state
  is kept also when the call raises), \<^verbatim>\<open>self.buffer.append\<close>,
  \<^verbatim>\<open>self.buffer.clear\<close> and \<^verbatim>\<open>reset\<close>.
\<close>

datatype operacao =
    ProcessarFrame "hand list"
  | BufferAppend sample
  | BufferClear
  | Reset

fun executar :: "recognizer \<Rightarrow> operacao \<Rightarrow> recognizer" where
  "executar r (ProcessarFrame hs) = fst (processar_frame r hs)"
| "executar r (BufferAppend s) = buffer_append r s"
| "executar r BufferClear = r\<lparr>buffer := []\<rparr>"
| "executar r Reset = reset r"

subsection \<open>Vocabulary of the specification\<close>

text \<open>
  The position at which a label is first seen in a history, as the specification uses it
  to break ties (not part of the code).
\<close>

definition primeira_ocorrencia :: "string list \<Rightarrow> string \<Rightarrow> nat" where
  "primeira_ocorrencia h g = length (takeWhile (\<lambda>x. x \<noteq> g) h)"

text \<open>
  Two conditions the properties below are stated under. A recogniser is well formed when
  its buffer is within its capacity and holds samples of 126 values, as
  \<^verbatim>\<open>processar_landmarks\<close> produces them. A recogniser classifies a sample as a label
  when, on every window whose newest sample is that one, its classifier returns a
  probability vector whose best entry passes the confidence gate and stands for that
  label.
\<close>

text \<open>The attributes of a recogniser that are set at construction and only read later.\<close>

definition config :: "recognizer \<Rightarrow> classifier \<times> string list \<times> real" where
  "config r = (model r, classes r, min_confidence r)"

definition bem_formado :: "recognizer \<Rightarrow> bool" where
  "bem_formado r =
     (length (buffer r) \<le> SEQUENCE_LENGTH \<and> list_all (\<lambda>s. length s = 126) (buffer r))"

definition classifica :: "recognizer \<Rightarrow> sample \<Rightarrow> string \<Rightarrow> bool" where
  "classifica r s a =
     (\<forall>w. w \<noteq> [] \<and> last w = s \<longrightarrow>
          (\<exists>i c. inferencia r w = Inr (i, c) \<and> \<not> c < min_confidence r \<and>
                 i < length (classes r) \<and> classes r ! i = a))"

text \<open>
  The labels of a history in the order of their first occurrence: the order in which
  the counting loop inserts its keys. Used in the proofs only.
\<close>

definition ordem :: "string list \<Rightarrow> string list" where
  "ordem h = rev (remdups (rev h))"

subsection \<open>A concrete session\<close>

text \<open>
  Inputs for the closed examples below: four hands of 21 landmarks each, told apart by
  their x coordinate; a classifier over the labels A, B and C that looks at the newest
  sample of the window and answers A (0.9), B (0.8), C (0.75) or, for the last hand, an
  undecided vector whose best entry 0.4 is under \<^verbatim>\<open>MIN_CONFIDENCE\<close>; and the
  recogniser built from them.
\<close>

definition mao_A :: hand where
  "mao_A = replicate 21 (1 / 4, 1 / 2, 0)"

definition mao_B :: hand where
  "mao_B = replicate 21 (1 / 2, 1 / 2, 0)"

definition mao_C :: hand where
  "mao_C = replicate 21 (3 / 4, 1 / 2, 0)"


definition classificador_exemplo :: classifier where
  "classificador_exemplo w =
     (case w of
        [] \<Rightarrow> Inl ModelError
      | s # ss \<Rightarrow>
          (case last w of
             [] \<Rightarrow> Inl ModelError
           | x # xs \<Rightarrow>
               if x < 3 / 8 then Inr [9 / 10, 1 / 20, 1 / 20]
               else if x < 5 / 8 then Inr [1 / 10, 4 / 5, 1 / 10]
               else if x < 7 / 8 then Inr [1 / 10, 3 / 20, 3 / 4]
               else Inr [2 / 5, 3 / 10, 3 / 10]))"

definition exemplo :: recognizer where
  "exemplo = init classificador_exemplo [''A'', ''B'', ''C''] MIN_CONFIDENCE"

text \<open>The recogniser after 29 frames that showed the first hand: one sample short of full.\<close>

definition quase_cheio :: recognizer where
  "quase_cheio = exemplo\<lparr>buffer := replicate 29 (processar_landmarks [mao_A])\<rparr>"

text \<open>
  A longer session: 30 frames of the first hand, 29 of the second, then the second and
  the first hand in turn, seven times; and the recogniser it leaves behind, whose history
  is full.
\<close>

definition sessao_longa :: "hand list list" where
  "sessao_longa =
     replicate 30 [mao_A] @ replicate 29 [mao_B] @ concat (replicate 7 [[mao_B], [mao_A]])"

definition historico_cheio :: recognizer where
  "historico_cheio =
     exemplo\<lparr>buffer :=
               replicate 16 (processar_landmarks [mao_B]) @
               concat (replicate 7 [processar_landmarks [mao_B], processar_landmarks [mao_A]]),
             prediction_history := ''A'' # concat (replicate 7 [''B'', ''A'']),
             ultimo_gesto := Some ''A'', ultima_confianca := 9 / 10\<rparr>"

section \<open>Properties\<close>

subsection \<open>The bounded deque\<close>

lemma deque_append_below: "length d < n \<Longrightarrow> deque_append n d x = d @ [x]"
  by (simp add: deque_append_def)

lemma deque_append_full: "length d = n \<Longrightarrow> 0 < n \<Longrightarrow> deque_append n d x = tl d @ [x]"
  by (cases d) (simp_all add: deque_append_def)

lemma length_deque_append: "length d \<le> n \<Longrightarrow> length (deque_append n d x) \<le> n"
  by (cases d) (auto simp: deque_append_def Let_def)


lemma deque_append_not_Nil: "0 < n \<Longrightarrow> deque_append n d x \<noteq> []"
  by (cases d) (auto simp: deque_append_def Let_def)

lemma foldl_deque_append:
  "length d + length xs \<le> n \<Longrightarrow> foldl (deque_append n) d xs = d @ xs"
proof (induction xs arbitrary: d)
  case Nil
  then show ?case by simp
next
  case (Cons x xs)
  then have "deque_append n d x = d @ [x]"
    by (simp add: deque_append_below)
  with Cons show ?case by simp
qed

lemma buffer_foldl_buffer_append:
  "buffer (foldl buffer_append r xs) = foldl (deque_append SEQUENCE_LENGTH) (buffer r) xs"
  by (induction xs arbitrary: r) (simp_all add: buffer_append_def)

text \<open>
  C7. Appending exactly \<^verbatim>\<open>SEQUENCE_LENGTH\<close> samples to the empty buffer of a new
  recogniser leaves those samples in the buffer, in the order they were appended; one
  more append puts the new sample last and drops the oldest one only.
\<close>

theorem janela_fifo:
  assumes "length xs = SEQUENCE_LENGTH"
  shows "buffer (foldl buffer_append (init m cs c) xs) = xs \<and>
         buffer (buffer_append (foldl buffer_append (init m cs c) xs) x) = tl xs @ [x]"
proof -
  have full: "buffer (foldl buffer_append (init m cs c) xs) = xs"
    using assms by (simp add: buffer_foldl_buffer_append foldl_deque_append init_def)
  have "0 < SEQUENCE_LENGTH" by (simp add: SEQUENCE_LENGTH_def)
  with assms full show ?thesis
    by (simp add: buffer_append_def deque_append_full)
qed

theorem janela_fifo_witness:
  "length (map (\<lambda>i. [real i]) [0..<30]) = SEQUENCE_LENGTH \<and>
   buffer (foldl buffer_append (init (\<lambda>w. Inl ModelError) [] 0) (map (\<lambda>i. [real i]) [0..<30]))
     = map (\<lambda>i. [real i]) [0..<30] \<and>
   buffer (buffer_append
        (foldl buffer_append (init (\<lambda>w. Inl ModelError) [] 0) (map (\<lambda>i. [real i]) [0..<30])) [30])
     = tl (map (\<lambda>i. [real i]) [0..<30]) @ [[30]]"
proof -
  have h: "length (map (\<lambda>i. [real i]) [0..<30]) = SEQUENCE_LENGTH"
    by (simp add: SEQUENCE_LENGTH_def)
  show ?thesis
    using h janela_fifo [OF h, of "\<lambda>w. Inl ModelError" "[]" 0 "[30]"] by simp
qed

subsection \<open>The pose encoder\<close>

lemma length_flatten: "length (concat (map (\<lambda>(x, y, z). [x, y, z]) ls)) = 3 * length ls"
  by (induction ls) auto

lemma length_processar_landmarks: "length (processar_landmarks hands) = 126"
proof -
  define ls where
    "ls = take 42 (concat hands) @
          replicate (42 - length (take 42 (concat hands))) (0::real, 0::real, 0::real)"
  have "length ls = 42"
    by (simp add: ls_def)
  moreover have "processar_landmarks hands = concat (map (\<lambda>(x, y, z). [x, y, z]) ls)"
    by (simp only: processar_landmarks_def Let_def ls_def)
  ultimately show ?thesis
    by (simp add: length_flatten)
qed

subsection \<open>The guard of \<^verbatim>\<open>reconhecer\<close>\<close>

text \<open>
  C9. Called on a buffer that holds fewer than \<^verbatim>\<open>SEQUENCE_LENGTH\<close> samples,
  \<^verbatim>\<open>reconhecer\<close> returns \<^verbatim>\<open>(None, 0.0)\<close> and leaves the recogniser as it was
  (buffer, history and last gesture included). The result is the same for every
  classifier, one that raises included: the classifier is not called.
\<close>

theorem reconhecer_guarda:
  assumes "length (buffer r) < SEQUENCE_LENGTH"
  shows "reconhecer (r\<lparr>model := m\<rparr>) = (r\<lparr>model := m\<rparr>, Inr (None, 0))"
  using assms by (simp add: reconhecer_def)

theorem reconhecer_guarda_witness:
  "length (buffer (init (\<lambda>w. Inr [1]) [''A''] (7 / 10))) < SEQUENCE_LENGTH \<and>
   reconhecer ((init (\<lambda>w. Inr [1]) [''A''] (7 / 10))\<lparr>model := \<lambda>w. Inl ModelError\<rparr>)
     = ((init (\<lambda>w. Inr [1]) [''A''] (7 / 10))\<lparr>model := \<lambda>w. Inl ModelError\<rparr>, Inr (None, 0))"
proof -
  have h: "length (buffer (init (\<lambda>w. Inr [1]) [''A''] (7 / 10))) < SEQUENCE_LENGTH"
    by (simp add: init_def SEQUENCE_LENGTH_def)
  show ?thesis
    using h reconhecer_guarda [OF h, of "\<lambda>w. Inl ModelError"] by simp
qed

subsection \<open>The majority vote\<close>

lemma ordem_snoc: "ordem (h @ [x]) = (if x \<in> set h then ordem h else ordem h @ [x])"
  by (simp add: ordem_def)

lemma set_ordem: "set (ordem h) = set h"
  by (simp add: ordem_def)

lemma distinct_ordem: "distinct (ordem h)"
  by (simp add: ordem_def)

lemma incrementar_map:
  "distinct ks \<Longrightarrow>
   incrementar (map (\<lambda>g. (g, f g)) ks) x =
     (if x \<in> set ks then map (\<lambda>g. (g, if g = x then f g + 1 else f g)) ks
      else map (\<lambda>g. (g, f g)) ks @ [(x, 1)])"
  by (induction ks) auto

lemma contagem_snoc: "contagem (h @ [x]) = incrementar (contagem h) x"
  by (simp add: contagem_def)

lemma contagem_ordem: "contagem h = map (\<lambda>g. (g, count_list h g)) (ordem h)"
proof (induction h rule: rev_induct)
  case Nil
  show ?case by (simp add: contagem_def ordem_def)
next
  case (snoc x h)
  show ?case
  proof (cases "x \<in> set h")
    case True
    then show ?thesis
      using snoc by (simp add: contagem_snoc incrementar_map distinct_ordem set_ordem ordem_snoc)
  next
    case False
    then show ?thesis
      using snoc by (auto simp: contagem_snoc incrementar_map distinct_ordem set_ordem ordem_snoc)
  qed
qed

lemma primeira_ocorrencia_less: "g \<in> set h \<Longrightarrow> primeira_ocorrencia h g < length h"
  unfolding primeira_ocorrencia_def by (induction h) auto

lemma primeira_ocorrencia_snoc_in:
  "g \<in> set h \<Longrightarrow> primeira_ocorrencia (h @ [x]) g = primeira_ocorrencia h g"
  unfolding primeira_ocorrencia_def by (induction h) auto

lemma primeira_ocorrencia_snoc_new:
  "x \<notin> set h \<Longrightarrow> primeira_ocorrencia (h @ [x]) x = length h"
  unfolding primeira_ocorrencia_def by (induction h) auto

lemma ordem_sorted:
  "sorted_wrt (\<lambda>a b. primeira_ocorrencia h a < primeira_ocorrencia h b) (ordem h)"
proof (induction h rule: rev_induct)
  case Nil
  show ?case by (simp add: ordem_def)
next
  case (snoc x h)
  have same: "sorted_wrt (\<lambda>a b. primeira_ocorrencia (h @ [x]) a < primeira_ocorrencia (h @ [x]) b)
                (ordem h)"
    using snoc
    by (rule sorted_wrt_mono_rel [rotated]) (simp add: primeira_ocorrencia_snoc_in set_ordem)
  show ?case
  proof (cases "x \<in> set h")
    case True
    with same show ?thesis by (simp add: ordem_snoc)
  next
    case False
    with same show ?thesis
      by (simp add: ordem_snoc sorted_wrt_append set_ordem primeira_ocorrencia_snoc_in
          primeira_ocorrencia_snoc_new primeira_ocorrencia_less)
  qed
qed

lemma max_from_split:
  "\<exists>pre post. best # kvs = pre @ max_from best kvs # post \<and>
     (\<forall>e\<in>set pre. snd e < snd (max_from best kvs)) \<and>
     (\<forall>e\<in>set post. snd e \<le> snd (max_from best kvs))"
proof (induction kvs arbitrary: best)
  case Nil
  have "[best] = [] @ max_from best [] # [] \<and>
        (\<forall>e\<in>set []. snd e < snd (max_from best [])) \<and>
        (\<forall>e\<in>set []. snd e \<le> snd (max_from best []))"
    by simp
  then show ?case by blast
next
  case (Cons kv kvs)
  show ?case
  proof (cases "snd best < snd kv")
    case True
    then have mf: "max_from best (kv # kvs) = max_from kv kvs"
      by simp
    obtain pre post where s: "kv # kvs = pre @ max_from kv kvs # post"
      and lt: "\<forall>e\<in>set pre. snd e < snd (max_from kv kvs)"
      and le: "\<forall>e\<in>set post. snd e \<le> snd (max_from kv kvs)"
      using Cons.IH [of kv] by blast
    have "snd kv \<le> snd (max_from kv kvs)"
    proof (cases pre)
      case Nil
      with s have "max_from kv kvs = kv" by (metis append_Nil list.inject)
      then show ?thesis by simp
    next
      case (Cons a pre')
      with s have "a = kv" by (metis append_Cons list.inject)
      with lt Cons show ?thesis by simp
    qed
    with True have bl: "snd best < snd (max_from kv kvs)" by simp
    have e1: "best # kv # kvs = (best # pre) @ max_from kv kvs # post"
      using s by simp
    have "best # kv # kvs = (best # pre) @ max_from best (kv # kvs) # post \<and>
       (\<forall>e\<in>set (best # pre). snd e < snd (max_from best (kv # kvs))) \<and>
       (\<forall>e\<in>set post. snd e \<le> snd (max_from best (kv # kvs)))"
      unfolding mf using e1 lt le bl by (intro conjI) simp_all
    then show ?thesis by blast
  next
    case False
    then have mf: "max_from best (kv # kvs) = max_from best kvs"
      by simp
    obtain pre post where s: "best # kvs = pre @ max_from best kvs # post"
      and lt: "\<forall>e\<in>set pre. snd e < snd (max_from best kvs)"
      and le: "\<forall>e\<in>set post. snd e \<le> snd (max_from best kvs)"
      using Cons.IH [of best] by blast
    show ?thesis
    proof (cases pre)
      case Nil
      with s have m: "max_from best kvs = best" and p: "post = kvs"
        by (metis append_Nil list.inject)+
      from le m p have le': "\<forall>e\<in>set kvs. snd e \<le> snd best"
        by simp
      have "best # kv # kvs = [] @ max_from best (kv # kvs) # (kv # kvs) \<and>
         (\<forall>e\<in>set []. snd e < snd (max_from best (kv # kvs))) \<and>
         (\<forall>e\<in>set (kv # kvs). snd e \<le> snd (max_from best (kv # kvs)))"
        unfolding mf m using le' False by (intro conjI) auto
      then show ?thesis by blast
    next
      case (Cons a pre')
      with s have a: "a = best" and k: "kvs = pre' @ max_from best kvs # post"
        by (metis append_Cons list.inject)+
      from lt Cons a have bl: "snd best < snd (max_from best kvs)" by simp
      with False have kl: "snd kv < snd (max_from best kvs)" by simp
      have pl: "\<forall>e\<in>set pre'. snd e < snd (max_from best kvs)"
        using lt Cons by simp
      have e1: "best # kv # kvs = (best # kv # pre') @ max_from best kvs # post"
        using k by simp
      have "best # kv # kvs = (best # kv # pre') @ max_from best (kv # kvs) # post \<and>
         (\<forall>e\<in>set (best # kv # pre'). snd e < snd (max_from best (kv # kvs))) \<and>
         (\<forall>e\<in>set post. snd e \<le> snd (max_from best (kv # kvs)))"
        unfolding mf using e1 bl kl pl le by (intro conjI) simp_all
      then show ?thesis by blast
    qed
  qed
qed

lemma max_items_split:
  assumes "items \<noteq> []"
  shows "\<exists>m pre post. max_items items = Inr m \<and> items = pre @ m # post \<and>
     (\<forall>e\<in>set pre. snd e < snd m) \<and> (\<forall>e\<in>set post. snd e \<le> snd m)"
proof -
  obtain kv kvs where i: "items = kv # kvs"
    using assms by (cases items) auto
  then have "max_items items = Inr (max_from kv kvs)"
    by (simp add: max_items_def)
  with i max_from_split [of kv kvs] show ?thesis by auto
qed

lemma votacao_escolha:
  assumes "h \<noteq> []"
  shows "\<exists>g. votacao h = Inr g \<and> g \<in> set h \<and>
           (\<forall>g'. count_list h g' \<le> count_list h g) \<and>
           (\<forall>g'. g' \<noteq> g \<and> count_list h g' = count_list h g \<longrightarrow>
                 primeira_ocorrencia h g < primeira_ocorrencia h g')"
proof -
  let ?c = "\<lambda>g. (g, count_list h g)"
  have ne: "contagem h \<noteq> []"
    using assms by (simp add: contagem_ordem ordem_def)
  obtain m pre post where mx: "max_items (contagem h) = Inr m"
    and sp: "contagem h = pre @ m # post"
    and lt: "\<forall>e\<in>set pre. snd e < snd m"
    and le: "\<forall>e\<in>set post. snd e \<le> snd m"
    using max_items_split [OF ne] by blast
  define g where "g = fst m"
  have vot: "votacao h = Inr g"
    by (simp add: votacao_def mx g_def)
  have mem: "m \<in> set (map ?c (ordem h))"
    using sp by (simp add: contagem_ordem [symmetric])
  then have m: "m = ?c g" and gin: "g \<in> set h"
    by (auto simp: g_def set_ordem)
  have keys: "ordem h = map fst pre @ g # map fst post"
  proof -
    have "map fst (contagem h) = ordem h"
      by (simp add: contagem_ordem comp_def)
    with sp show ?thesis by (simp add: g_def)
  qed
  have entry: "e = ?c (fst e)" if "e \<in> set pre \<or> e \<in> set post" for e
  proof -
    from that sp have "e \<in> set (map ?c (ordem h))"
      by (auto simp: contagem_ordem [symmetric])
    then show ?thesis by auto
  qed
  have where_: "g' \<in> fst ` set pre \<or> g' \<in> fst ` set post" if "g' \<in> set h" "g' \<noteq> g" for g'
  proof -
    from that(1) have "g' \<in> set (ordem h)" by (simp add: set_ordem)
    with keys that(2) show ?thesis by auto
  qed
  have cnt: "count_list h g' \<le> count_list h g" for g'
  proof (cases "g' \<in> set h \<and> g' \<noteq> g")
    case True
    then obtain e where e: "e \<in> set pre \<or> e \<in> set post" and f: "fst e = g'"
      using where_ [of g'] by auto
    from e lt le have "snd e \<le> snd m" by auto
    with entry [OF e] f m show ?thesis
      by (metis snd_conv)
  next
    case False
    then show ?thesis by (cases "g' = g") simp_all
  qed
  have tie: "primeira_ocorrencia h g < primeira_ocorrencia h g'"
    if neq: "g' \<noteq> g" and eq: "count_list h g' = count_list h g" for g'
  proof -
    have "count_list h g \<noteq> 0"
      using gin count_list_0_iff [of h g] by auto
    with eq have g'in: "g' \<in> set h"
      using count_list_0_iff [of h g'] by auto
    have "g' \<notin> fst ` set pre"
    proof
      assume "g' \<in> fst ` set pre"
      then obtain e where e: "e \<in> set pre" and f: "fst e = g'" by auto
      from e lt have "snd e < snd m" by simp
      moreover have "e = ?c g'" using entry [of e] e f by simp
      ultimately show False using m eq by (metis less_irrefl snd_conv)
    qed
    with where_ [OF g'in neq] have "g' \<in> set (map fst post)" by simp
    with ordem_sorted [of h] keys show ?thesis
      by (auto simp: sorted_wrt_append)
  qed
  from vot gin cnt tie show ?thesis by blast
qed

text \<open>
  C8. On a non-empty history the vote succeeds and returns a label of the history whose
  number of occurrences no other label exceeds; among the labels that reach this
  maximum it is the one seen first in the history. The vote is a function of the history
  contents, so the choice is deterministic.
\<close>

theorem votacao_maioria:
  assumes "h \<noteq> []"
  shows "\<exists>g. votacao h = Inr g \<and> g \<in> set h \<and>
           (\<forall>g'. count_list h g' \<le> count_list h g) \<and>
           (\<forall>g'. g' \<noteq> g \<and> count_list h g' = count_list h g \<longrightarrow>
                 primeira_ocorrencia h g < primeira_ocorrencia h g')"
  using assms by (rule votacao_escolha)

theorem votacao_maioria_witness:
  "[''B'', ''A'', ''A'', ''B''] \<noteq> [] \<and>
   votacao [''B'', ''A'', ''A'', ''B''] = Inr ''B'' \<and>
   (\<exists>g. votacao [''B'', ''A'', ''A'', ''B''] = Inr g \<and> g \<in> set [''B'', ''A'', ''A'', ''B''] \<and>
      (\<forall>g'. count_list [''B'', ''A'', ''A'', ''B''] g' \<le> count_list [''B'', ''A'', ''A'', ''B''] g) \<and>
      (\<forall>g'. g' \<noteq> g \<and> count_list [''B'', ''A'', ''A'', ''B''] g' = count_list [''B'', ''A'', ''A'', ''B''] g \<longrightarrow>
         primeira_ocorrencia [''B'', ''A'', ''A'', ''B''] g < primeira_ocorrencia [''B'', ''A'', ''A'', ''B''] g'))"
proof -
  have h: "[''B'', ''A'', ''A'', ''B''] \<noteq> ([] :: string list)"
    by simp
  have v: "votacao [''B'', ''A'', ''A'', ''B''] = Inr ''B''"
    by code_simp
  from h v votacao_maioria [OF h] show ?thesis
    by blast
qed

subsection \<open>The confidence gate\<close>

lemma inferencia_cong: "model r' = model r \<Longrightarrow> inferencia r' w = inferencia r w"
  by (simp add: inferencia_def)

lemma reshape_entrada_length: "reshape_entrada b = Inr w \<Longrightarrow> length b = SEQUENCE_LENGTH"
  by (simp add: reshape_entrada_def split: if_splits)

lemma reshape_entrada_same: "reshape_entrada b = Inr w \<Longrightarrow> w = b"
  by (auto simp add: reshape_entrada_def split: if_splits)




subsection \<open>Presence tracking\<close>

lemma reconhecer_state:
  "reconhecer r = (r', x) \<Longrightarrow> r' = r \<or> (\<exists>g. r' = history_append r g)"
  by (auto simp: reconhecer_def Let_def split: if_splits sum.splits prod.splits)

lemma reconhecer_buffer: "buffer (fst (reconhecer r)) = buffer r"
  using reconhecer_state [of r "fst (reconhecer r)" "snd (reconhecer r)"]
  by (auto simp: history_append_def)




subsection \<open>Bounds of the two deques\<close>

lemma reconhecer_history_length:
  "length (prediction_history r) \<le> HISTORY_SIZE \<Longrightarrow>
   length (prediction_history (fst (reconhecer r))) \<le> HISTORY_SIZE"
  using reconhecer_state [of r "fst (reconhecer r)" "snd (reconhecer r)"]
  by (auto simp: history_append_def length_deque_append)

lemma processar_frame_limites:
  assumes "length (buffer r) \<le> SEQUENCE_LENGTH"
    and "length (prediction_history r) \<le> HISTORY_SIZE"
  shows "length (buffer (fst (processar_frame r hands))) \<le> SEQUENCE_LENGTH \<and>
         length (prediction_history (fst (processar_frame r hands))) \<le> HISTORY_SIZE"
proof (cases "hands = []")
  case True
  with assms show ?thesis
    by (simp add: processar_frame_def Let_def)
next
  case False
  define r2 where "r2 = buffer_append (r\<lparr>frames_sem_maos := 0\<rparr>) (processar_landmarks hands)"
  have b2: "length (buffer r2) \<le> SEQUENCE_LENGTH"
    using assms(1) by (simp add: r2_def buffer_append_def length_deque_append)
  have h2: "length (prediction_history r2) \<le> HISTORY_SIZE"
    using assms(2) by (simp add: r2_def buffer_append_def)
  obtain r3 x where rec: "reconhecer r2 = (r3, x)"
    by (cases "reconhecer r2")
  have b3: "length (buffer r3) \<le> SEQUENCE_LENGTH"
    using reconhecer_buffer [of r2] rec b2 by simp
  have h3: "length (prediction_history r3) \<le> HISTORY_SIZE"
    using reconhecer_history_length [OF h2] rec by simp
  show ?thesis
    using False rec b2 h2 b3 h3
    by (auto simp: processar_frame_def Let_def r2_def [symmetric] split: sum.splits prod.splits)
qed

lemma executar_limites:
  assumes "length (buffer r) \<le> SEQUENCE_LENGTH"
    and "length (prediction_history r) \<le> HISTORY_SIZE"
  shows "length (buffer (executar r op)) \<le> SEQUENCE_LENGTH \<and>
         length (prediction_history (executar r op)) \<le> HISTORY_SIZE"
proof (cases op)
  case (ProcessarFrame hs)
  then show ?thesis
    using processar_frame_limites [OF assms] by simp
next
  case (BufferAppend s)
  then show ?thesis
    using assms by (simp add: buffer_append_def length_deque_append)
next
  case BufferClear
  then show ?thesis using assms by simp
next
  case Reset
  then show ?thesis by (simp add: reset_def)
qed

text \<open>
  C6. Whatever sequence of \<^verbatim>\<open>processar_frame\<close> calls (raising or not), buffer
  appends, buffer clears and resets is applied to a recogniser whose buffer holds at most
  \<^verbatim>\<open>SEQUENCE_LENGTH\<close> samples and whose history holds at most \<^verbatim>\<open>HISTORY_SIZE\<close>
  labels (a new recogniser, with both empty, is one), both bounds hold afterwards.
\<close>

theorem limites_preservados:
  assumes "length (buffer r) \<le> SEQUENCE_LENGTH"
    and "length (prediction_history r) \<le> HISTORY_SIZE"
  shows "length (buffer (foldl executar r ops)) \<le> SEQUENCE_LENGTH \<and>
         length (prediction_history (foldl executar r ops)) \<le> HISTORY_SIZE"
  using assms
proof (induction ops arbitrary: r)
  case Nil
  then show ?case by simp
next
  case (Cons op ops)
  have "length (buffer (executar r op)) \<le> SEQUENCE_LENGTH"
    and "length (prediction_history (executar r op)) \<le> HISTORY_SIZE"
    using executar_limites [OF Cons.prems] by simp_all
  then show ?case
    using Cons.IH [of "executar r op"] by simp
qed

theorem limites_preservados_witness:
  "length (buffer exemplo) \<le> SEQUENCE_LENGTH \<and>
   length (prediction_history exemplo) \<le> HISTORY_SIZE \<and>
   length (buffer (foldl executar exemplo
      (replicate 40 (ProcessarFrame [mao_A]) @ [BufferAppend [], BufferClear, ProcessarFrame [], Reset])))
     \<le> SEQUENCE_LENGTH \<and>
   length (prediction_history (foldl executar exemplo
      (replicate 40 (ProcessarFrame [mao_A]) @ [BufferAppend [], BufferClear, ProcessarFrame [], Reset])))
     \<le> HISTORY_SIZE"
proof -
  have b: "length (buffer exemplo) \<le> SEQUENCE_LENGTH"
    by (simp add: exemplo_def init_def)
  have h: "length (prediction_history exemplo) \<le> HISTORY_SIZE"
    by (simp add: exemplo_def init_def)
  from b h limites_preservados [OF b h] show ?thesis
    by blast
qed

subsection \<open>The inference step\<close>




lemma reconhecer_aceito:
  assumes "reshape_entrada (buffer r) = Inr w"
    and "inferencia r w = Inr (i, c)"
    and "\<not> c < min_confidence r"
    and "i < length (classes r)"
    and "votacao (deque_append HISTORY_SIZE (prediction_history r) (classes r ! i)) = Inr g"
  shows "reconhecer r = (history_append r (classes r ! i), Inr (Some g, c))"
  using assms reshape_entrada_length [OF assms(1)]
  by (simp add: reconhecer_def Let_def history_append_def)

subsection \<open>Emission\<close>

text \<open>
  What a frame with hands does when its window is full and its prediction passes the
  confidence gate: the label goes into the history, the vote is taken, and the frame
  either reports a new recognition and empties the buffer, or slides the buffer on.
\<close>

lemma frame_aceito:
  assumes "hands \<noteq> []"
    and "reshape_entrada (buffer (buffer_append r (processar_landmarks hands))) = Inr w"
    and "inferencia r w = Inr (i, c)"
    and "\<not> c < min_confidence r"
    and "i < length (classes r)"
    and "votacao (deque_append HISTORY_SIZE (prediction_history r) (classes r ! i)) = Inr g"
  shows "processar_frame r hands =
     (if g \<noteq> [] \<and> ultimo_gesto r \<noteq> Some g
      then (r\<lparr>frames_sem_maos := 0, buffer := [],
               prediction_history :=
                 deque_append HISTORY_SIZE (prediction_history r) (classes r ! i),
               ultimo_gesto := Some g, ultima_confianca := c\<rparr>,
            Inr (Some g, c, True))
      else (r\<lparr>frames_sem_maos := 0,
               buffer := deque_append SEQUENCE_LENGTH (buffer r) (processar_landmarks hands),
               prediction_history :=
                 deque_append HISTORY_SIZE (prediction_history r) (classes r ! i)\<rparr>,
            Inr (ultimo_gesto r, ultima_confianca r, False)))"
proof -
  define r2 where "r2 = buffer_append (r\<lparr>frames_sem_maos := 0\<rparr>) (processar_landmarks hands)"
  have b2: "buffer r2 = buffer (buffer_append r (processar_landmarks hands))"
    by (simp add: r2_def buffer_append_def)
  have full: "length (buffer r2) = SEQUENCE_LENGTH"
    using reshape_entrada_length [OF assms(2)] b2 by simp
  have "inferencia r2 w = inferencia r w"
    by (rule inferencia_cong) (simp add: r2_def buffer_append_def)
  with assms(3) have inf: "inferencia r2 w = Inr (i, c)"
    by simp
  have resh: "reshape_entrada (buffer r2) = Inr w"
    using assms(2) b2 by simp
  have conf: "\<not> c < min_confidence r2"
    using assms(4) by (simp add: r2_def buffer_append_def)
  have idx: "i < length (classes r2)"
    using assms(5) by (simp add: r2_def buffer_append_def)
  have vot: "votacao (deque_append HISTORY_SIZE (prediction_history r2) (classes r2 ! i)) = Inr g"
    using assms(6) by (simp add: r2_def buffer_append_def)
  have rec: "reconhecer r2 = (history_append r2 (classes r2 ! i), Inr (Some g, c))"
    by (rule reconhecer_aceito [OF resh inf conf idx vot])
  show ?thesis
    using assms(1) full rec
    by (simp add: processar_frame_def Let_def r2_def [symmetric] truthy_def retorno_def)
       (simp add: r2_def buffer_append_def history_append_def)
qed

text \<open>
  C1, as the code has it. When the window is full, the prediction passes the gate and the
  voted label is non-empty and differs from \<^verbatim>\<open>ultimo_gesto\<close> (or none is set), the
  frame reports a new recognition with the voted label and the confidence of this
  frame's prediction, stores both as the last gesture and confidence, and empties the
  buffer. The history is not emptied: it keeps its entries, the label just appended
  among them.
\<close>

theorem emissao:
  assumes "hands \<noteq> []"
    and "reshape_entrada (buffer (buffer_append r (processar_landmarks hands))) = Inr w"
    and "inferencia r w = Inr (i, c)"
    and "\<not> c < min_confidence r"
    and "i < length (classes r)"
    and "votacao (deque_append HISTORY_SIZE (prediction_history r) (classes r ! i)) = Inr g"
    and "g \<noteq> []"
    and "ultimo_gesto r \<noteq> Some g"
  shows "processar_frame r hands =
           (r\<lparr>frames_sem_maos := 0, buffer := [],
              prediction_history :=
                deque_append HISTORY_SIZE (prediction_history r) (classes r ! i),
              ultimo_gesto := Some g, ultima_confianca := c\<rparr>,
            Inr (Some g, c, True)) \<and>
         ultimo_gesto (fst (processar_frame r hands)) = Some g \<and>
         buffer (fst (processar_frame r hands)) = [] \<and>
         prediction_history (fst (processar_frame r hands)) =
           deque_append HISTORY_SIZE (prediction_history r) (classes r ! i) \<and>
         prediction_history (fst (processar_frame r hands)) \<noteq> []"
proof -
  have "0 < HISTORY_SIZE"
    by (simp add: HISTORY_SIZE_def)
  then have "deque_append HISTORY_SIZE (prediction_history r) (classes r ! i) \<noteq> []"
    by (rule deque_append_not_Nil)
  then show ?thesis
    using frame_aceito [OF assms(1-6)] assms(7,8) by simp
qed

theorem emissao_witness:
  "[mao_A] \<noteq> [] \<and>
   reshape_entrada (buffer (buffer_append quase_cheio (processar_landmarks [mao_A]))) =
     Inr (buffer (buffer_append quase_cheio (processar_landmarks [mao_A]))) \<and>
   inferencia quase_cheio (buffer (buffer_append quase_cheio (processar_landmarks [mao_A]))) =
     Inr (0, 9 / 10) \<and>
   \<not> 9 / 10 < min_confidence quase_cheio \<and>
   0 < length (classes quase_cheio) \<and>
   votacao (deque_append HISTORY_SIZE (prediction_history quase_cheio) (classes quase_cheio ! 0)) =
     Inr ''A'' \<and>
   ''A'' \<noteq> [] \<and>
   ultimo_gesto quase_cheio \<noteq> Some ''A'' \<and>
   processar_frame quase_cheio [mao_A] =
     (quase_cheio\<lparr>frames_sem_maos := 0, buffer := [],
        prediction_history :=
          deque_append HISTORY_SIZE (prediction_history quase_cheio) (classes quase_cheio ! 0),
        ultimo_gesto := Some ''A'', ultima_confianca := 9 / 10\<rparr>,
      Inr (Some ''A'', 9 / 10, True)) \<and>
   prediction_history (fst (processar_frame quase_cheio [mao_A])) \<noteq> []"
proof -
  have h1: "[mao_A] \<noteq> []"
    by simp
  have h2: "reshape_entrada (buffer (buffer_append quase_cheio (processar_landmarks [mao_A]))) =
     Inr (buffer (buffer_append quase_cheio (processar_landmarks [mao_A])))"
    by code_simp
  have h3: "inferencia quase_cheio (buffer (buffer_append quase_cheio (processar_landmarks [mao_A]))) =
     Inr (0, 9 / 10)"
    by code_simp
  have h4: "\<not> 9 / 10 < min_confidence quase_cheio"
    by code_simp
  have h5: "0 < length (classes quase_cheio)"
    by code_simp
  have h6: "votacao (deque_append HISTORY_SIZE (prediction_history quase_cheio) (classes quase_cheio ! 0)) =
     Inr ''A''"
    by code_simp
  have h7: "''A'' \<noteq> []"
    by simp
  have h8: "ultimo_gesto quase_cheio \<noteq> Some ''A''"
    by code_simp
  from h1 h2 h3 h4 h5 h6 h7 h8 emissao [OF h1 h2 h3 h4 h5 h6 h7 h8] show ?thesis
    by blast
qed

text \<open>
  The first recognition of a session: after 30 frames of the first hand the last frame
  reports A with confidence 0.9, the buffer is empty, and the history still holds A.
\<close>

theorem emissao_limpa_historico_counterexample:
  "(case loop_principal exemplo (replicate 30 [mao_A]) of
      (r, ress, e) \<Rightarrow> (last ress, buffer r, prediction_history r, e)) =
   ((Some ''A'', 9 / 10, True), [], [''A''], None)"
  by code_simp



subsection \<open>The sessions of the examples\<close>

text \<open>The configuration of a recogniser (model, labels, threshold) is never written.\<close>

lemma reconhecer_config:
  "model (fst (reconhecer r)) = model r \<and> classes (fst (reconhecer r)) = classes r \<and>
   min_confidence (fst (reconhecer r)) = min_confidence r"
  using reconhecer_state [of r "fst (reconhecer r)" "snd (reconhecer r)"]
  by (auto simp: history_append_def)

lemma processar_frame_config:
  "model (fst (processar_frame r hands)) = model r \<and>
   classes (fst (processar_frame r hands)) = classes r \<and>
   min_confidence (fst (processar_frame r hands)) = min_confidence r"
proof (cases "hands = []")
  case True
  then show ?thesis by (simp add: processar_frame_def Let_def)
next
  case False
  define r2 where "r2 = buffer_append (r\<lparr>frames_sem_maos := 0\<rparr>) (processar_landmarks hands)"
  obtain r3 x where rec: "reconhecer r2 = (r3, x)"
    by (cases "reconhecer r2")
  have c2: "model r2 = model r" "classes r2 = classes r" "min_confidence r2 = min_confidence r"
    by (simp_all add: r2_def buffer_append_def)
  have c3: "model r3 = model r2" "classes r3 = classes r2" "min_confidence r3 = min_confidence r2"
    using reconhecer_config [of r2] rec by simp_all
  show ?thesis
    using False rec c2 c3
    by (auto simp: processar_frame_def Let_def r2_def [symmetric] split: sum.splits prod.splits)
qed

lemma loop_principal_config:
  "model (fst (loop_principal r fs)) = model r \<and>
   classes (fst (loop_principal r fs)) = classes r \<and>
   min_confidence (fst (loop_principal r fs)) = min_confidence r"
proof (induction fs arbitrary: r)
  case Nil
  show ?case by simp
next
  case (Cons f fs)
  obtain r' x where pf: "processar_frame r f = (r', x)"
    by (cases "processar_frame r f")
  have c: "model r' = model r" "classes r' = classes r" "min_confidence r' = min_confidence r"
    using processar_frame_config [of r f] pf by simp_all
  show ?case
  proof (cases x)
    case (Inl e)
    with pf c show ?thesis by simp
  next
    case (Inr res)
    with pf c Cons.IH [of r'] show ?thesis
      by (auto split: prod.splits)
  qed
qed

text \<open>The two example recognisers are what the loop leaves after the sessions named.\<close>

lemma quase_cheio_alcancavel:
  "loop_principal exemplo (replicate 29 [mao_A]) =
     (quase_cheio, replicate 29 (None, 0, False), None)"
proof -
  obtain r ress e where l: "loop_principal exemplo (replicate 29 [mao_A]) = (r, ress, e)"
    by (cases "loop_principal exemplo (replicate 29 [mao_A])")
  have "(case loop_principal exemplo (replicate 29 [mao_A]) of
          (r, ress, e) \<Rightarrow>
            (buffer r, prediction_history r, frames_sem_maos r, ultimo_gesto r,
             ultima_confianca r, ress, e)) =
        (buffer quase_cheio, prediction_history quase_cheio, frames_sem_maos quase_cheio,
         ultimo_gesto quase_cheio, ultima_confianca quase_cheio,
         replicate 29 (None, 0, False), None)"
    by code_simp
  with l have f: "buffer r = buffer quase_cheio"
    "prediction_history r = prediction_history quase_cheio"
    "frames_sem_maos r = frames_sem_maos quase_cheio"
    "ultimo_gesto r = ultimo_gesto quase_cheio"
    "ultima_confianca r = ultima_confianca quase_cheio"
    "ress = replicate 29 (None, 0, False)" "e = None"
    by simp_all
  have c: "model r = model quase_cheio" "classes r = classes quase_cheio"
    "min_confidence r = min_confidence quase_cheio"
    using loop_principal_config [of exemplo "replicate 29 [mao_A]"] l
    by (simp_all add: quase_cheio_def)
  have "r = quase_cheio"
    using f c by (intro recognizer.equality) simp_all
  with l f show ?thesis by simp
qed

lemma historico_cheio_alcancavel:
  "fst (loop_principal exemplo sessao_longa) = historico_cheio \<and>
   reconhecidos (fst (snd (loop_principal exemplo sessao_longa))) = [(Some ''A'', 9 / 10)] \<and>
   snd (snd (loop_principal exemplo sessao_longa)) = None"
proof -
  obtain r ress e where l: "loop_principal exemplo sessao_longa = (r, ress, e)"
    by (cases "loop_principal exemplo sessao_longa")
  have "(case loop_principal exemplo sessao_longa of
          (r, ress, e) \<Rightarrow>
            (buffer r, prediction_history r, frames_sem_maos r, ultimo_gesto r,
             ultima_confianca r, reconhecidos ress, e)) =
        (buffer historico_cheio, prediction_history historico_cheio,
         frames_sem_maos historico_cheio, ultimo_gesto historico_cheio,
         ultima_confianca historico_cheio, [(Some ''A'', 9 / 10)], None)"
    by code_simp
  with l have f: "buffer r = buffer historico_cheio"
    "prediction_history r = prediction_history historico_cheio"
    "frames_sem_maos r = frames_sem_maos historico_cheio"
    "ultimo_gesto r = ultimo_gesto historico_cheio"
    "ultima_confianca r = ultima_confianca historico_cheio"
    "reconhecidos ress = [(Some ''A'', 9 / 10)]" "e = None"
    by simp_all
  have c: "model r = model historico_cheio" "classes r = classes historico_cheio"
    "min_confidence r = min_confidence historico_cheio"
    using loop_principal_config [of exemplo sessao_longa] l
    by (simp_all add: historico_cheio_def)
  have "r = historico_cheio"
    using f c by (intro recognizer.equality) simp_all
  with l f show ?thesis by simp
qed

subsection \<open>Label and confidence of a recognition\<close>



subsection \<open>Debounce\<close>

text \<open>
  Runs of the loop in which the classifier keeps answering one label. The hypothesis
  \<open>classifica r s a\<close> is on the newest sample of the window, so it can hold for one
  label on some frames of a run and for another label on later frames.
\<close>

lemma list_all_deque_append:
  "list_all P d \<Longrightarrow> P x \<Longrightarrow> list_all P (deque_append n d x)"
  by (cases d) (auto simp: deque_append_def Let_def list_all_iff)

lemma set_deque_append: "set (deque_append n d x) \<subseteq> insert x (set d)"
  by (cases d) (auto simp: deque_append_def Let_def)

lemma last_deque_append: "0 < n \<Longrightarrow> last (deque_append n d x) = x"
  by (cases d) (auto simp: deque_append_def Let_def)

lemma votacao_unanime:
  assumes "set h \<subseteq> {a}"
  shows "votacao (deque_append HISTORY_SIZE h a) = Inr a"
proof -
  have ne: "deque_append HISTORY_SIZE h a \<noteq> []"
    by (rule deque_append_not_Nil) (simp add: HISTORY_SIZE_def)
  obtain g where g: "votacao (deque_append HISTORY_SIZE h a) = Inr g"
    and gin: "g \<in> set (deque_append HISTORY_SIZE h a)"
    using votacao_escolha [OF ne] by blast
  from gin set_deque_append [of HISTORY_SIZE h a] assms have "g = a"
    by auto
  with g show ?thesis by simp
qed

lemma processar_frame_mesma_config: "config (fst (processar_frame r f)) = config r"
  using processar_frame_config [of r f] by (simp add: config_def)

lemma classifica_config:
  assumes "classifica r s a" and "config r' = config r"
  shows "classifica r' s a"
proof -
  have "inferencia r' w = inferencia r w" for w
    using assms(2) by (intro inferencia_cong) (simp add: config_def)
  with assms show ?thesis
    by (simp add: classifica_def config_def)
qed

lemma classifica_janela:
  assumes "classifica r (processar_landmarks f) a"
  shows "\<exists>i c. inferencia r (deque_append SEQUENCE_LENGTH (buffer r) (processar_landmarks f)) =
                 Inr (i, c) \<and>
               \<not> c < min_confidence r \<and> i < length (classes r) \<and> classes r ! i = a"
proof -
  let ?w = "deque_append SEQUENCE_LENGTH (buffer r) (processar_landmarks f)"
  have "?w \<noteq> []" "last ?w = processar_landmarks f"
    by (simp_all add: deque_append_not_Nil last_deque_append SEQUENCE_LENGTH_def)
  with assms show ?thesis
    unfolding classifica_def by blast
qed

lemma bem_formado_push:
  assumes "bem_formado r"
  shows "length (deque_append SEQUENCE_LENGTH (buffer r) (processar_landmarks hands))
           \<le> SEQUENCE_LENGTH"
    and "list_all (\<lambda>s. length s = 126)
           (deque_append SEQUENCE_LENGTH (buffer r) (processar_landmarks hands))"
  using assms
  by (simp_all add: bem_formado_def length_deque_append list_all_deque_append
      length_processar_landmarks)

lemma frame_nao_cheio:
  assumes "hands \<noteq> []"
    and "length (deque_append SEQUENCE_LENGTH (buffer r) (processar_landmarks hands))
           \<noteq> SEQUENCE_LENGTH"
  shows "processar_frame r hands =
           (r\<lparr>frames_sem_maos := 0,
              buffer := deque_append SEQUENCE_LENGTH (buffer r) (processar_landmarks hands)\<rparr>,
            Inr (ultimo_gesto r, ultima_confianca r, False))"
  using assms by (simp add: processar_frame_def Let_def buffer_append_def retorno_def)

lemma frame_ausente:
  "processar_frame r [] =
     (if RESET_THRESHOLD < frames_sem_maos r + 1 \<and> buffer r \<noteq> []
      then r\<lparr>frames_sem_maos := frames_sem_maos r + 1, buffer := [], prediction_history := []\<rparr>
      else r\<lparr>frames_sem_maos := frames_sem_maos r + 1\<rparr>,
      Inr (ultimo_gesto r, ultima_confianca r, False))"
  by (simp add: processar_frame_def Let_def retorno_def)

lemma passo_ausente:
  assumes "bem_formado r"
  shows "\<exists>r'. processar_frame r [] = (r', Inr (ultimo_gesto r, ultima_confianca r, False)) \<and>
           config r' = config r \<and> bem_formado r' \<and> ultimo_gesto r' = ultimo_gesto r \<and>
           ultima_confianca r' = ultima_confianca r \<and>
           set (prediction_history r') \<subseteq> set (prediction_history r)"
proof (cases "RESET_THRESHOLD < frames_sem_maos r + 1 \<and> buffer r \<noteq> []")
  case True
  define r' where
    "r' = r\<lparr>frames_sem_maos := frames_sem_maos r + 1, buffer := [], prediction_history := []\<rparr>"
  have "processar_frame r [] = (r', Inr (ultimo_gesto r, ultima_confianca r, False))"
    using True by (auto simp: frame_ausente r'_def)
  moreover have "config r' = config r" "bem_formado r'" "ultimo_gesto r' = ultimo_gesto r"
    "ultima_confianca r' = ultima_confianca r"
    "set (prediction_history r') \<subseteq> set (prediction_history r)"
    by (simp_all add: r'_def config_def bem_formado_def)
  ultimately show ?thesis by blast
next
  case False
  define r' where "r' = r\<lparr>frames_sem_maos := frames_sem_maos r + 1\<rparr>"
  have "processar_frame r [] = (r', Inr (ultimo_gesto r, ultima_confianca r, False))"
    using False by (auto simp: frame_ausente r'_def)
  moreover have "config r' = config r" "bem_formado r'" "ultimo_gesto r' = ultimo_gesto r"
    "ultima_confianca r' = ultima_confianca r"
    "set (prediction_history r') \<subseteq> set (prediction_history r)"
    using assms by (simp_all add: r'_def config_def bem_formado_def)
  ultimately show ?thesis by blast
qed

lemma passo_sem_inferencia:
  assumes "bem_formado r" "hands \<noteq> []"
    and "length (deque_append SEQUENCE_LENGTH (buffer r) (processar_landmarks hands))
           \<noteq> SEQUENCE_LENGTH"
  shows "\<exists>r'. processar_frame r hands = (r', Inr (ultimo_gesto r, ultima_confianca r, False)) \<and>
           config r' = config r \<and> bem_formado r' \<and> ultimo_gesto r' = ultimo_gesto r \<and>
           ultima_confianca r' = ultima_confianca r \<and>
           prediction_history r' = prediction_history r"
proof -
  define r' where "r' = r\<lparr>frames_sem_maos := 0,
    buffer := deque_append SEQUENCE_LENGTH (buffer r) (processar_landmarks hands)\<rparr>"
  have "processar_frame r hands = (r', Inr (ultimo_gesto r, ultima_confianca r, False))"
    using frame_nao_cheio [OF assms(2,3)] by (simp add: r'_def)
  moreover have "bem_formado r'"
    using bem_formado_push [OF assms(1), of hands] by (simp add: bem_formado_def r'_def)
  moreover have "config r' = config r" "ultimo_gesto r' = ultimo_gesto r"
    "ultima_confianca r' = ultima_confianca r" "prediction_history r' = prediction_history r"
    by (simp_all add: r'_def config_def)
  ultimately show ?thesis by blast
qed

lemma passo_com_inferencia:
  assumes cls: "classifica r (processar_landmarks hands) a"
    and wf: "bem_formado r"
    and hs: "hands \<noteq> []"
    and full: "length (deque_append SEQUENCE_LENGTH (buffer r) (processar_landmarks hands))
           = SEQUENCE_LENGTH"
    and hist: "set (prediction_history r) \<subseteq> {a}"
    and a: "a \<noteq> []"
  shows "\<exists>r' c. processar_frame r hands =
             (r', Inr (if ultimo_gesto r = Some a
                       then (ultimo_gesto r, ultima_confianca r, False)
                       else (Some a, c, True))) \<and>
           config r' = config r \<and> bem_formado r' \<and> ultimo_gesto r' = Some a \<and>
           (ultimo_gesto r = Some a \<longrightarrow> ultima_confianca r' = ultima_confianca r) \<and>
           set (prediction_history r') \<subseteq> {a}"
proof -
  let ?w = "deque_append SEQUENCE_LENGTH (buffer r) (processar_landmarks hands)"
  have wall: "list_all (\<lambda>s. length s = 126) ?w"
    using bem_formado_push [OF wf] by simp
  have resh: "reshape_entrada (buffer (buffer_append r (processar_landmarks hands))) = Inr ?w"
    using full wall by (simp add: reshape_entrada_def buffer_append_def)
  obtain i c where inf: "inferencia r ?w = Inr (i, c)"
    and conf: "\<not> c < min_confidence r" and idx: "i < length (classes r)"
    and lab: "classes r ! i = a"
    using classifica_janela [OF cls] by blast
  let ?h = "deque_append HISTORY_SIZE (prediction_history r) (classes r ! i)"
  have vot: "votacao ?h = Inr a"
    using votacao_unanime [OF hist] lab by simp
  have hsub: "set ?h \<subseteq> {a}"
    using set_deque_append [of HISTORY_SIZE "prediction_history r" a] hist lab by auto
  show ?thesis
  proof (cases "ultimo_gesto r = Some a")
    case True
    define r' where "r' = r\<lparr>frames_sem_maos := 0, buffer := ?w, prediction_history := ?h\<rparr>"
    have "processar_frame r hands = (r', Inr (ultimo_gesto r, ultima_confianca r, False))"
      using frame_aceito [OF hs resh inf conf idx vot] True by (simp add: r'_def)
    moreover have "bem_formado r'"
      using full wall by (simp add: bem_formado_def r'_def)
    moreover have "config r' = config r" "ultimo_gesto r' = Some a"
      "ultima_confianca r' = ultima_confianca r" "set (prediction_history r') \<subseteq> {a}"
      using True hsub by (simp_all add: r'_def config_def)
    ultimately show ?thesis using True by auto
  next
    case False
    define r' where "r' = r\<lparr>frames_sem_maos := 0, buffer := [], prediction_history := ?h,
      ultimo_gesto := Some a, ultima_confianca := c\<rparr>"
    have "processar_frame r hands = (r', Inr (Some a, c, True))"
      using frame_aceito [OF hs resh inf conf idx vot] False a by (simp add: r'_def)
    moreover have "bem_formado r'"
      by (simp add: bem_formado_def r'_def)
    moreover have "config r' = config r" "ultimo_gesto r' = Some a"
      "set (prediction_history r') \<subseteq> {a}"
      using hsub by (simp_all add: r'_def config_def)
    ultimately show ?thesis using False by auto
  qed
qed

lemma reconhecidos_Cons:
  "reconhecidos ((g, c, novo) # ress) =
     (if novo then (g, c) # reconhecidos ress else reconhecidos ress)"
  by (simp add: reconhecidos_def)

lemma reconhecidos_replicate_False: "reconhecidos (replicate n (g, c, False)) = []"
  by (simp add: reconhecidos_def)

lemma passo_unico:
  assumes cls: "f \<noteq> [] \<Longrightarrow> classifica r (processar_landmarks f) a"
    and wf: "bem_formado r"
    and hist: "set (prediction_history r) \<subseteq> {a}"
    and a: "a \<noteq> []"
  shows "\<exists>r' c. processar_frame r f =
             (r', Inr (if f \<noteq> [] \<and> ultimo_gesto r \<noteq> Some a \<and>
                          length (deque_append SEQUENCE_LENGTH (buffer r) (processar_landmarks f))
                            = SEQUENCE_LENGTH
                       then (Some a, c, True)
                       else (ultimo_gesto r, ultima_confianca r, False))) \<and>
           config r' = config r \<and> bem_formado r' \<and>
           set (prediction_history r') \<subseteq> {a} \<and>
           (ultimo_gesto r = Some a \<longrightarrow>
              ultimo_gesto r' = Some a \<and> ultima_confianca r' = ultima_confianca r)"
proof (cases "f = []")
  case True
  obtain r' where "processar_frame r [] = (r', Inr (ultimo_gesto r, ultima_confianca r, False))"
    "config r' = config r" "bem_formado r'" "ultimo_gesto r' = ultimo_gesto r"
    "ultima_confianca r' = ultima_confianca r"
    "set (prediction_history r') \<subseteq> set (prediction_history r)"
    using passo_ausente [OF wf] by blast
  with True hist show ?thesis by auto
next
  case False
  show ?thesis
  proof (cases "length (deque_append SEQUENCE_LENGTH (buffer r) (processar_landmarks f))
                  = SEQUENCE_LENGTH")
    case full: True
    obtain r' c where "processar_frame r f =
             (r', Inr (if ultimo_gesto r = Some a
                       then (ultimo_gesto r, ultima_confianca r, False)
                       else (Some a, c, True)))"
      "config r' = config r" "bem_formado r'" "ultimo_gesto r' = Some a"
      "ultimo_gesto r = Some a \<longrightarrow> ultima_confianca r' = ultima_confianca r"
      "set (prediction_history r') \<subseteq> {a}"
      using passo_com_inferencia [OF cls [OF False] wf False full hist a] by blast
    with False full show ?thesis by auto
  next
    case nfull: False
    obtain r' where "processar_frame r f = (r', Inr (ultimo_gesto r, ultima_confianca r, False))"
      "config r' = config r" "bem_formado r'" "ultimo_gesto r' = ultimo_gesto r"
      "ultima_confianca r' = ultima_confianca r"
      "prediction_history r' = prediction_history r"
      using passo_sem_inferencia [OF wf False nfull] by blast
    with False nfull hist show ?thesis by auto
  qed
qed

lemma loop_mesmo_gesto:
  assumes "\<forall>f\<in>set fs. f \<noteq> [] \<longrightarrow> classifica r (processar_landmarks f) a"
    and "bem_formado r" "set (prediction_history r) \<subseteq> {a}" "a \<noteq> []"
    and "ultimo_gesto r = Some a"
  shows "\<exists>r'. loop_principal r fs =
           (r', replicate (length fs) (ultimo_gesto r, ultima_confianca r, False), None)"
  using assms
proof (induction fs arbitrary: r)
  case Nil
  show ?case by simp
next
  case (Cons f fs)
  have cf: "f \<noteq> [] \<Longrightarrow> classifica r (processar_landmarks f) a"
    using Cons.prems(1) by simp
  obtain r1 c where pf: "processar_frame r f =
      (r1, Inr (ultimo_gesto r, ultima_confianca r, False))"
    and cfg: "config r1 = config r" and w1: "bem_formado r1"
    and h1: "set (prediction_history r1) \<subseteq> {a}"
    and u1: "ultimo_gesto r1 = Some a" "ultima_confianca r1 = ultima_confianca r"
    using passo_unico [OF cf Cons.prems(2,3,4)] Cons.prems(5) by auto
  have c1: "\<forall>f\<in>set fs. f \<noteq> [] \<longrightarrow> classifica r1 (processar_landmarks f) a"
    using Cons.prems(1) cfg by (auto intro: classifica_config)
  obtain r' where "loop_principal r1 fs =
      (r', replicate (length fs) (ultimo_gesto r1, ultima_confianca r1, False), None)"
    using Cons.IH [OF c1 w1 h1 Cons.prems(4) u1(1)] by blast
  with pf u1 Cons.prems(5) show ?case by simp
qed

lemma loop_no_maximo_um:
  assumes "\<forall>f\<in>set fs. f \<noteq> [] \<longrightarrow> classifica r (processar_landmarks f) a"
    and "bem_formado r" "set (prediction_history r) \<subseteq> {a}" "a \<noteq> []"
  shows "\<exists>r' ress. loop_principal r fs = (r', ress, None) \<and>
           length (reconhecidos ress) \<le> 1 \<and>
           set (map fst (reconhecidos ress)) \<subseteq> {Some a}"
  using assms
proof (induction fs arbitrary: r)
  case Nil
  show ?case by (simp add: reconhecidos_def)
next
  case (Cons f fs)
  have cf: "f \<noteq> [] \<Longrightarrow> classifica r (processar_landmarks f) a"
    using Cons.prems(1) by simp
  define novo where "novo = (f \<noteq> [] \<and> ultimo_gesto r \<noteq> Some a \<and>
      length (deque_append SEQUENCE_LENGTH (buffer r) (processar_landmarks f)) = SEQUENCE_LENGTH)"
  obtain r1 c where pf: "processar_frame r f =
      (r1, Inr (if novo then (Some a, c, True) else (ultimo_gesto r, ultima_confianca r, False)))"
    and cfg: "config r1 = config r" and w1: "bem_formado r1"
    and h1: "set (prediction_history r1) \<subseteq> {a}"
    and u1: "ultimo_gesto r = Some a \<longrightarrow> ultimo_gesto r1 = Some a"
    using passo_unico [OF cf Cons.prems(2,3,4)] unfolding novo_def by blast
  have c1: "\<forall>f\<in>set fs. f \<noteq> [] \<longrightarrow> classifica r1 (processar_landmarks f) a"
    using Cons.prems(1) cfg by (auto intro: classifica_config)
  show ?case
  proof (cases novo)
    case True
    have "ultimo_gesto r1 = Some a"
    proof -
      have "f \<noteq> []" using True by (simp add: novo_def)
      moreover have "length (deque_append SEQUENCE_LENGTH (buffer r) (processar_landmarks f))
                       = SEQUENCE_LENGTH"
        using True by (simp add: novo_def)
      ultimately obtain r'' c'' where
        "processar_frame r f =
           (r'', Inr (if ultimo_gesto r = Some a
                      then (ultimo_gesto r, ultima_confianca r, False)
                      else (Some a, c'', True)))"
        "ultimo_gesto r'' = Some a"
        using passo_com_inferencia [OF cf Cons.prems(2) _ _ Cons.prems(3,4)] by blast
      with pf show ?thesis by simp
    qed
    then obtain r' where "loop_principal r1 fs =
        (r', replicate (length fs) (ultimo_gesto r1, ultima_confianca r1, False), None)"
      using loop_mesmo_gesto [OF c1 w1 h1 Cons.prems(4)] by blast
    with pf True have lp: "loop_principal r (f # fs) =
        (r', (Some a, c, True) #
             replicate (length fs) (ultimo_gesto r1, ultima_confianca r1, False), None)"
      by simp
    have rc: "reconhecidos ((Some a, c, True) #
                replicate (length fs) (ultimo_gesto r1, ultima_confianca r1, False)) =
              [(Some a, c)]"
      by (simp add: reconhecidos_Cons reconhecidos_replicate_False)
    have "length [(Some a, c)] \<le> 1" "set (map fst [(Some a, c)]) \<subseteq> {Some a}"
      by simp_all
    with lp rc show ?thesis
      by metis
  next
    case False
    obtain r' ress where l: "loop_principal r1 fs = (r', ress, None)"
      and le: "length (reconhecidos ress) \<le> 1"
      and lab: "set (map fst (reconhecidos ress)) \<subseteq> {Some a}"
      using Cons.IH [OF c1 w1 h1 Cons.prems(4)] by blast
    from pf False l have "loop_principal r (f # fs) =
        (r', (ultimo_gesto r, ultima_confianca r, False) # ress, None)"
      by simp
    moreover have "reconhecidos ((ultimo_gesto r, ultima_confianca r, False) # ress) =
        reconhecidos ress"
      by (simp add: reconhecidos_Cons)
    ultimately show ?thesis
      using le lab by metis
  qed
qed

lemma passo_enchendo:
  assumes "hands \<noteq> []"
    and "Suc (length (buffer r)) < SEQUENCE_LENGTH"
  shows "processar_frame r hands =
           (r\<lparr>frames_sem_maos := 0, buffer := buffer r @ [processar_landmarks hands]\<rparr>,
            Inr (ultimo_gesto r, ultima_confianca r, False))"
proof -
  have d: "deque_append SEQUENCE_LENGTH (buffer r) (processar_landmarks hands) =
             buffer r @ [processar_landmarks hands]"
    using assms(2) by (simp add: deque_append_below)
  then have "length (deque_append SEQUENCE_LENGTH (buffer r) (processar_landmarks hands))
               \<noteq> SEQUENCE_LENGTH"
    using assms(2) by simp
  from frame_nao_cheio [OF assms(1) this] d show ?thesis
    by simp
qed

lemma loop_ate_primeiro:
  assumes "\<forall>f\<in>set fs. f \<noteq> [] \<and> classifica r (processar_landmarks f) a"
    and "bem_formado r" "ultimo_gesto r = None"
    and "prediction_history r = []" "a \<noteq> []"
    and "length (buffer r) < SEQUENCE_LENGTH"
  shows "\<exists>r' ress. loop_principal r fs = (r', ress, None) \<and>
           map (\<lambda>(g, c, novo). novo) ress =
             (replicate (length fs) False)[SEQUENCE_LENGTH - 1 - length (buffer r) := True] \<and>
           map fst (reconhecidos ress) =
             (if SEQUENCE_LENGTH - length (buffer r) \<le> length fs then [Some a] else [])"
  using assms
proof (induction fs arbitrary: r)
  case Nil
  then show ?case by (simp add: reconhecidos_def)
next
  case (Cons f fs)
  have f: "f \<noteq> []" and cf: "classifica r (processar_landmarks f) a"
    and fs: "\<forall>f\<in>set fs. f \<noteq> [] \<and> classifica r (processar_landmarks f) a"
    using Cons.prems(1) by simp_all
  have hsub: "set (prediction_history r) \<subseteq> {a}"
    using Cons.prems(4) by simp
  show ?case
  proof (cases "Suc (length (buffer r)) = SEQUENCE_LENGTH")
    case True
    have full: "length (deque_append SEQUENCE_LENGTH (buffer r) (processar_landmarks f))
                  = SEQUENCE_LENGTH"
      using True by (simp add: deque_append_below)
    obtain r1 c where pf: "processar_frame r f = (r1, Inr (Some a, c, True))"
      and cfg: "config r1 = config r" and w1: "bem_formado r1"
      and u1: "ultimo_gesto r1 = Some a" and h1: "set (prediction_history r1) \<subseteq> {a}"
      using passo_com_inferencia [OF cf Cons.prems(2) f full hsub Cons.prems(5)]
        Cons.prems(3) by auto
    have c1: "\<forall>f\<in>set fs. f \<noteq> [] \<longrightarrow> classifica r1 (processar_landmarks f) a"
      using fs cfg by (auto intro: classifica_config)
    obtain r' where l: "loop_principal r1 fs =
        (r', replicate (length fs) (ultimo_gesto r1, ultima_confianca r1, False), None)"
      using loop_mesmo_gesto [OF c1 w1 h1 Cons.prems(5) u1] by blast
    have idx: "SEQUENCE_LENGTH - 1 - length (buffer r) = 0"
      using True by simp
    have le: "SEQUENCE_LENGTH - length (buffer r) \<le> length (f # fs)"
      using True by simp
    from pf l have lp:
      "loop_principal r (f # fs) =
         (r', (Some a, c, True) #
              replicate (length fs) (ultimo_gesto r1, ultima_confianca r1, False), None)"
      by simp
    have fl: "map (\<lambda>(g, c, novo). novo)
                ((Some a, c, True) #
                 replicate (length fs) (ultimo_gesto r1, ultima_confianca r1, False)) =
              (replicate (length (f # fs)) False)[SEQUENCE_LENGTH - 1 - length (buffer r) := True]"
      using idx by simp
    have rc: "map fst (reconhecidos ((Some a, c, True) #
                 replicate (length fs) (ultimo_gesto r1, ultima_confianca r1, False))) =
              (if SEQUENCE_LENGTH - length (buffer r) \<le> length (f # fs) then [Some a] else [])"
      using le by (simp add: reconhecidos_Cons reconhecidos_replicate_False)
    from lp fl rc show ?thesis by metis
  next
    case False
    with Cons.prems(6) have lt: "Suc (length (buffer r)) < SEQUENCE_LENGTH"
      by simp
    define r1 where
      "r1 = r\<lparr>frames_sem_maos := 0, buffer := buffer r @ [processar_landmarks f]\<rparr>"
    have pf: "processar_frame r f = (r1, Inr (ultimo_gesto r, ultima_confianca r, False))"
      using passo_enchendo [OF f lt] by (simp add: r1_def)
    have cfg: "config r1 = config r"
      by (simp add: r1_def config_def)
    have c1: "\<forall>f\<in>set fs. f \<noteq> [] \<and> classifica r1 (processar_landmarks f) a"
      using fs cfg by (auto intro: classifica_config)
    have w1: "bem_formado r1"
      using Cons.prems(2) lt
      by (simp add: bem_formado_def r1_def length_processar_landmarks)
    have u1: "ultimo_gesto r1 = None" and h1: "prediction_history r1 = []"
      using Cons.prems(3,4) by (simp_all add: r1_def)
    have b1: "length (buffer r1) = Suc (length (buffer r))"
      by (simp add: r1_def)
    have l1: "length (buffer r1) < SEQUENCE_LENGTH"
      using lt b1 by simp
    obtain r' ress where l: "loop_principal r1 fs = (r', ress, None)"
      and fl: "map (\<lambda>(g, c, novo). novo) ress =
             (replicate (length fs) False)[SEQUENCE_LENGTH - 1 - length (buffer r1) := True]"
      and rc: "map fst (reconhecidos ress) =
             (if SEQUENCE_LENGTH - length (buffer r1) \<le> length fs then [Some a] else [])"
      using Cons.IH [OF c1 w1 u1 h1 Cons.prems(5) l1] by blast
    have lp: "loop_principal r (f # fs) =
        (r', (ultimo_gesto r, ultima_confianca r, False) # ress, None)"
      using pf l by simp
    have idx: "SEQUENCE_LENGTH - 1 - length (buffer r) =
                 Suc (SEQUENCE_LENGTH - 1 - length (buffer r1))"
      using lt b1 by simp
    have cond: "(SEQUENCE_LENGTH - length (buffer r) \<le> length (f # fs)) =
                (SEQUENCE_LENGTH - length (buffer r1) \<le> length fs)"
      using lt b1 by auto
    have "map (\<lambda>(g, c, novo). novo) ((ultimo_gesto r, ultima_confianca r, False) # ress) =
            (replicate (length (f # fs)) False)[SEQUENCE_LENGTH - 1 - length (buffer r) := True]"
      using fl idx by simp
    moreover have "map fst (reconhecidos ((ultimo_gesto r, ultima_confianca r, False) # ress)) =
            (if SEQUENCE_LENGTH - length (buffer r) \<le> length (f # fs) then [Some a] else [])"
      using rc cond by (simp add: reconhecidos_Cons)
    ultimately show ?thesis using lp by metis
  qed
qed























subsection \<open>Exceptions of the recognition path\<close>

text \<open>
  C5. Nothing in \<^verbatim>\<open>reconhecer\<close>, \<^verbatim>\<open>processar_frame\<close> or the loop of
  \<^verbatim>\<open>main\<close> catches an exception of the classifier. When the model raises on the
  window of a frame, or answers a vector that is empty or whose best index has no label,
  the call of \<^verbatim>\<open>processar_frame\<close> raises, after the frame's sample has been appended
  to the buffer, and the loop ends there: the frames after it are not processed.
\<close>

theorem excecao_encerra_laco:
  assumes "hands \<noteq> []"
    and "reshape_entrada (buffer (buffer_append r (processar_landmarks hands))) = Inr w"
    and "inferencia r w = Inl e \<or>
         (\<exists>i c. inferencia r w = Inr (i, c) \<and> \<not> c < min_confidence r \<and>
                length (classes r) \<le> i \<and> e = IndexError)"
  shows "processar_frame r hands =
           (r\<lparr>frames_sem_maos := 0,
              buffer := deque_append SEQUENCE_LENGTH (buffer r) (processar_landmarks hands)\<rparr>,
            Inl e) \<and>
         loop_principal r (hands # fs) =
           (r\<lparr>frames_sem_maos := 0,
              buffer := deque_append SEQUENCE_LENGTH (buffer r) (processar_landmarks hands)\<rparr>,
            [], Some e)"
proof -
  define r2 where "r2 = buffer_append (r\<lparr>frames_sem_maos := 0\<rparr>) (processar_landmarks hands)"
  have b2: "buffer r2 = buffer (buffer_append r (processar_landmarks hands))"
    by (simp add: r2_def buffer_append_def)
  have full: "length (buffer r2) = SEQUENCE_LENGTH"
    using reshape_entrada_length [OF assms(2)] b2 by simp
  have resh: "reshape_entrada (buffer r2) = Inr w"
    using assms(2) b2 by simp
  have inf: "inferencia r2 w = inferencia r w"
    by (rule inferencia_cong) (simp add: r2_def buffer_append_def)
  have rec: "reconhecer r2 = (r2, Inl e)"
    using assms(3) full resh inf
    by (auto simp: reconhecer_def r2_def buffer_append_def)
  have pf: "processar_frame r hands = (r2, Inl e)"
    using assms(1) full rec
    by (simp add: processar_frame_def Let_def r2_def [symmetric])
  have r2': "r2 = r\<lparr>frames_sem_maos := 0,
              buffer := deque_append SEQUENCE_LENGTH (buffer r) (processar_landmarks hands)\<rparr>"
    by (simp add: r2_def buffer_append_def)
  show ?thesis
    using pf by (simp add: r2')
qed

theorem excecao_encerra_laco_witness:
  "[mao_A] \<noteq> [] \<and>
   reshape_entrada (buffer (buffer_append (quase_cheio\<lparr>model := \<lambda>w. Inl ModelError\<rparr>)
       (processar_landmarks [mao_A]))) =
     Inr (replicate 30 (processar_landmarks [mao_A])) \<and>
   inferencia (quase_cheio\<lparr>model := \<lambda>w. Inl ModelError\<rparr>)
     (replicate 30 (processar_landmarks [mao_A])) = Inl ModelError \<and>
   processar_frame (quase_cheio\<lparr>model := \<lambda>w. Inl ModelError\<rparr>) [mao_A] =
     (quase_cheio\<lparr>model := \<lambda>w. Inl ModelError\<rparr>
        \<lparr>frames_sem_maos := 0,
         buffer := deque_append SEQUENCE_LENGTH
           (buffer (quase_cheio\<lparr>model := \<lambda>w. Inl ModelError\<rparr>))
           (processar_landmarks [mao_A])\<rparr>,
      Inl ModelError) \<and>
   loop_principal (quase_cheio\<lparr>model := \<lambda>w. Inl ModelError\<rparr>) [[mao_A], [mao_B]] =
     (quase_cheio\<lparr>model := \<lambda>w. Inl ModelError\<rparr>
        \<lparr>frames_sem_maos := 0,
         buffer := deque_append SEQUENCE_LENGTH
           (buffer (quase_cheio\<lparr>model := \<lambda>w. Inl ModelError\<rparr>))
           (processar_landmarks [mao_A])\<rparr>,
      [], Some ModelError)"
proof -
  let ?r = "quase_cheio\<lparr>model := \<lambda>w. Inl ModelError\<rparr>"
  have h1: "[mao_A] \<noteq> []"
    by simp
  have h2: "reshape_entrada (buffer (buffer_append ?r (processar_landmarks [mao_A]))) =
     Inr (replicate 30 (processar_landmarks [mao_A]))"
    by code_simp
  have h3: "inferencia ?r (replicate 30 (processar_landmarks [mao_A])) = Inl ModelError"
    by (simp add: inferencia_def)
  from h3 have h3': "inferencia ?r (replicate 30 (processar_landmarks [mao_A])) = Inl ModelError \<or>
         (\<exists>i c. inferencia ?r (replicate 30 (processar_landmarks [mao_A])) = Inr (i, c) \<and>
                \<not> c < min_confidence ?r \<and>
                length (classes ?r) \<le> i \<and> ModelError = IndexError)"
    by (rule disjI1)
  from h1 h2 h3 excecao_encerra_laco [OF h1 h2 h3', of "[[mao_B]]"] show ?thesis
    by blast
qed

text \<open>
  A model with three outputs behind a label list of two: the session ends with
  \<^verbatim>\<open>IndexError\<close> at the frame that fills the window, and the frame after it is
  never processed.
\<close>

theorem laco_interrompido_counterexample:
  "(case loop_principal (exemplo\<lparr>classes := [''A'', ''B'']\<rparr>)
          (replicate 29 [mao_A] @ [[mao_C], [mao_A]]) of
      (r, ress, e) \<Rightarrow>
        (length ress, reconhecidos ress, length (buffer r), prediction_history r, e)) =
   (29, [], 30, [], Some IndexError)"
  by code_simp

end
